theory Spec2Isabelle
  imports Main
begin

section \<open>Data model of the AR piano (src/piano.py)\<close>

text \<open>
  A key's button geometry is a Qt rectangle with integer coordinates.
\<close>

record QRect =
  rect_x :: int
  rect_y :: int
  rect_width :: int
  rect_height :: int

text \<open>
  The part of \<open>ARPiano\<close> that the note trigger, the touch-lift loop and the tiles read and
  write. \<open>keys_info\<close> is the list of (button geometry, note name) in creation order,
  \<open>sounds\<close> the note names a sample was loaded for, \<open>is_held\<close> and
  \<open>last_tile_collision_time_for_note\<close> are the two dictionaries. Timestamps are the
  integers \<open>int(time.time() * 1000)\<close>; the clock reading is an argument of every
  function that takes one.

  Three fields record what the object asks of its collaborators, in call order:
  \<open>trigger_log\<close> has one entry (note name, from_tile, current_ms) per call of
  \<open>trigger_note_by_name\<close>, \<open>played\<close> one entry per \<open>Sound.play()\<close>, and
  \<open>flying\<close> one entry per call of \<open>spawnFlyingNote\<close> (the button's geometry).
\<close>

record ARPiano =
  keys_info :: "(QRect \<times> string) list"
  sounds :: "string list"
  is_held :: "string \<rightharpoonup> bool"
  auto_play_muted :: bool
  score :: int
  last_tile_collision_time_for_note :: "string \<rightharpoonup> int"
  trigger_log :: "(string \<times> bool \<times> int) list"
  played :: "string list"
  flying :: "QRect list"

text \<open>\<open>self.tile_score_window_ms = 300\<close>, set once in \<open>__init__\<close> and never assigned again.\<close>

definition tile_score_window_ms :: int where
  "tile_score_window_ms = 300"

section \<open>Note trigger and scoring\<close>

text \<open>\<open>addScore\<close>: \<open>self.score += points\<close> (the label text is display only).\<close>

definition addScore :: "int \<Rightarrow> ARPiano \<Rightarrow> ARPiano" where
  "addScore points p = p\<lparr>score := score p + points\<rparr>"

text \<open>
  The body of the scoring branch of \<open>trigger_note_by_name\<close> (the block under
  \<open>if (not from_tile) and self.auto_play_muted\<close>): look the note's collision time up,
  add 10 when \<open>current_ms - collision_time <= tile_score_window_ms\<close>, and delete the
  entry whenever one was found.
\<close>

definition score_check :: "string \<Rightarrow> int \<Rightarrow> ARPiano \<Rightarrow> ARPiano" where
  "score_check note_name current_ms p =
     (case last_tile_collision_time_for_note p note_name of
        None \<Rightarrow> p
      | Some collision_time \<Rightarrow>
          (let p1 = (if current_ms - collision_time \<le> tile_score_window_ms
                     then addScore 10 p else p)
           in p1\<lparr>last_tile_collision_time_for_note :=
                    (last_tile_collision_time_for_note p1)(note_name := None)\<rparr>))"

text \<open>
  The tail of \<open>trigger_note_by_name\<close>: play the sample if one is loaded, then spawn a
  flying note above the first key of that name, if there is one.
\<close>

fun first_button :: "(QRect \<times> string) list \<Rightarrow> string \<Rightarrow> QRect option" where
  "first_button [] note_name = None"
| "first_button ((btn, nm) # ks) note_name =
     (if nm = note_name then Some btn else first_button ks note_name)"

definition sound_and_effect :: "string \<Rightarrow> ARPiano \<Rightarrow> ARPiano" where
  "sound_and_effect note_name p =
     (let p1 = (if note_name \<in> set (sounds p)
                then p\<lparr>played := played p @ [note_name]\<rparr> else p)
      in case first_button (keys_info p1) note_name of
           None \<Rightarrow> p1
         | Some btn \<Rightarrow> p1\<lparr>flying := flying p1 @ [btn]\<rparr>)"

definition trigger_note_by_name :: "string \<Rightarrow> bool \<Rightarrow> int \<Rightarrow> ARPiano \<Rightarrow> ARPiano" where
  "trigger_note_by_name note_name from_tile current_ms p0 =
     (let p = p0\<lparr>trigger_log := trigger_log p0 @ [(note_name, from_tile, current_ms)]\<rparr>
      in if from_tile \<and> auto_play_muted p then p
         else sound_and_effect note_name
                (if \<not> from_tile \<and> auto_play_muted p
                 then score_check note_name current_ms p else p))"

text \<open>A piano in teach mode with one pending collision of g4 at 1000 ms.\<close>

definition demo_key :: QRect where
  "demo_key = \<lparr>rect_x = 0, rect_y = 400, rect_width = 50, rect_height = 200\<rparr>"

definition demo_piano :: "bool \<Rightarrow> ARPiano" where
  "demo_piano muted =
     \<lparr>keys_info = [(demo_key, ''g4'')], sounds = [''g4''],
      is_held = [''g4'' \<mapsto> False], auto_play_muted = muted, score = 0,
      last_tile_collision_time_for_note = [''g4'' \<mapsto> 1000],
      trigger_log = [], played = [], flying = []\<rparr>"

text \<open>\<open>toggleTeach\<close> flips the mode flag (the button text is display only).\<close>

definition toggleTeach :: "ARPiano \<Rightarrow> ARPiano" where
  "toggleTeach p = p\<lparr>auto_play_muted := \<not> auto_play_muted p\<rparr>"

section \<open>Touch-lift loop of update_camera\<close>

datatype py_error = KeyError

text \<open>
  \<open>__init__\<close> step 11: \<open>self.is_held = {}\<close>, then \<open>is_held[nm] = False\<close> for every key.
\<close>

fun init_is_held :: "(QRect \<times> string) list \<Rightarrow> (string \<rightharpoonup> bool) \<Rightarrow> (string \<rightharpoonup> bool)" where
  "init_is_held [] m = m"
| "init_is_held ((btn, nm) # ks) m = init_is_held ks (m(nm \<mapsto> False))"

text \<open>
  The loop \<open>for (btn, nm) in self.keys_info\<close> at the end of the landmark processing.
  \<open>touched_now\<close> is the set that the fingertip tests of this frame built. Both
  branches read \<open>self.is_held[nm]\<close>, which raises KeyError for a missing key. The
  clock is read once per frame.
\<close>

fun touch_lift :: "(QRect \<times> string) list \<Rightarrow> string set \<Rightarrow> int \<Rightarrow> ARPiano \<Rightarrow> py_error + ARPiano" where
  "touch_lift [] touched_now now p = Inr p"
| "touch_lift ((btn, nm) # ks) touched_now now p =
     (case is_held p nm of
        None \<Rightarrow> Inl KeyError
      | Some held \<Rightarrow>
          if nm \<in> touched_now then
            (if \<not> held
             then touch_lift ks touched_now now
                    ((trigger_note_by_name nm False now p)
                       \<lparr>is_held := (is_held (trigger_note_by_name nm False now p))(nm \<mapsto> True)\<rparr>)
             else touch_lift ks touched_now now p)
          else
            (if held
             then touch_lift ks touched_now now (p\<lparr>is_held := (is_held p)(nm \<mapsto> False)\<rparr>)
             else touch_lift ks touched_now now p))"

text \<open>
  One timer tick of \<open>update_camera\<close>: a failed capture (\<open>not ret\<close>) returns at once;
  otherwise the frame's touched set goes through the touch-lift loop.
\<close>

definition update_camera :: "string set option \<Rightarrow> int \<Rightarrow> ARPiano \<Rightarrow> py_error + ARPiano" where
  "update_camera frame now p =
     (case frame of
        None \<Rightarrow> Inr p
      | Some touched_now \<Rightarrow> touch_lift (keys_info p) touched_now now p)"

text \<open>Successive ticks, each with its clock reading; an exception ends the run.\<close>

fun camera_ticks :: "(int \<times> string set option) list \<Rightarrow> ARPiano \<Rightarrow> py_error + ARPiano" where
  "camera_ticks [] p = Inr p"
| "camera_ticks ((now, frame) # fs) p =
     (case update_camera frame now p of
        Inl e \<Rightarrow> Inl e
      | Inr p' \<Rightarrow> camera_ticks fs p')"

text \<open>
  What the claim about edge triggering speaks of: the frames that were processed, the
  touched/untouched sequence of one key over them, the first frames of the maximal
  touched runs, and the number of such runs.
\<close>

fun processed :: "(int \<times> string set option) list \<Rightarrow> (int \<times> string set) list" where
  "processed [] = []"
| "processed ((now, None) # fs) = processed fs"
| "processed ((now, Some t) # fs) = (now, t) # processed fs"

definition touched_seq :: "string \<Rightarrow> (int \<times> string set) list \<Rightarrow> bool list" where
  "touched_seq nm fs = map (\<lambda>f. nm \<in> snd f) fs"

definition run_starts :: "bool list \<Rightarrow> nat list" where
  "run_starts bs = [i \<leftarrow> [0..<length bs]. bs ! i \<and> (i = 0 \<or> \<not> bs ! (i - 1))]"

definition touched_runs :: "bool list \<Rightarrow> nat" where
  "touched_runs bs = length [b \<leftarrow> remdups_adj bs. b]"

definition note_ons :: "string \<Rightarrow> ARPiano \<Rightarrow> (string \<times> bool \<times> int) list" where
  "note_ons nm p = [e \<leftarrow> trigger_log p. fst e = nm]"

section \<open>Falling tiles\<close>

record FallingTile =
  note_name :: string
  key_rect :: QRect
  fall_speed :: int
  is_finished :: bool
  tile_x :: int
  tile_y :: int
  tile_width :: int
  tile_height :: int

text \<open>
  \<open>FallingTile.__init__\<close>. The side \<open>int(key_rect.width() * 0.7)\<close> is a floating-point
  product truncated to an integer; it is the parameter \<open>scale\<close> here, a function of the
  key width alone. The widget's size after \<open>resize(tile_side, tile_side)\<close> is taken to be
  that side, as it is for a side that is not negative.
\<close>

definition FallingTile_init :: "(int \<Rightarrow> int) \<Rightarrow> string \<Rightarrow> QRect \<Rightarrow> int \<Rightarrow> int \<Rightarrow> FallingTile" where
  "FallingTile_init scale nm kr speed x_offset =
     (let tile_side = scale (rect_width kr);
          start_x = rect_x kr + x_offset + (rect_width kr - tile_side) div 2;
          start_y = - tile_side
      in \<lparr>note_name = nm, key_rect = kr, fall_speed = speed, is_finished = False,
          tile_x = start_x, tile_y = start_y,
          tile_width = tile_side, tile_height = tile_side\<rparr>)"

text \<open>\<open>FallingTile.update_position\<close>; the tile's piano is passed and returned.\<close>

definition update_position :: "int \<Rightarrow> FallingTile \<Rightarrow> ARPiano \<Rightarrow> FallingTile \<times> ARPiano" where
  "update_position current_ms t p =
     (if is_finished t then (t, p)
      else
        (let nx = tile_x t;
             ny = tile_y t + fall_speed t;
             t1 = t\<lparr>tile_x := nx, tile_y := ny\<rparr>;
             tile_bottom = ny + tile_height t1;
             key_top = rect_y (key_rect t1)
         in if tile_bottom \<ge> key_top
            then (t1\<lparr>is_finished := True\<rparr>,
                  if \<not> auto_play_muted p
                  then trigger_note_by_name (note_name t1) True current_ms p
                  else p\<lparr>last_tile_collision_time_for_note :=
                           (last_tile_collision_time_for_note p)(note_name t1 \<mapsto> current_ms)\<rparr>)
            else (t1, p)))"

text \<open>
  \<open>TileOverlay.update_tiles\<close>: every tile of the list is updated in order and a tile that
  is finished afterwards is dropped.
\<close>

fun update_tiles :: "int \<Rightarrow> FallingTile list \<Rightarrow> ARPiano \<Rightarrow> FallingTile list \<times> ARPiano" where
  "update_tiles now [] p = ([], p)"
| "update_tiles now (t # ts) p =
     (case update_position now t p of
        (t', p') \<Rightarrow>
          (case update_tiles now ts p' of
             (ts', p'') \<Rightarrow> (if is_finished t' then ts' else t' # ts', p'')))"

text \<open>One tile over successive frames, each with its clock reading.\<close>

fun fall :: "int list \<Rightarrow> FallingTile \<Rightarrow> ARPiano \<Rightarrow> FallingTile \<times> ARPiano" where
  "fall [] t p = (t, p)"
| "fall (now # nows) t p = (case update_position now t p of (t', p') \<Rightarrow> fall nows t' p')"

text \<open>
  Truth value of a \<open>QRect\<close> in PyQt5: \<open>isValid()\<close>, that is \<open>left \<le> right\<close> and
  \<open>top \<le> bottom\<close> with \<open>right = x + width - 1\<close> and \<open>bottom = y + height - 1\<close>.
\<close>

definition QRect_bool :: "QRect \<Rightarrow> bool" where
  "QRect_bool r \<longleftrightarrow> rect_x r \<le> rect_x r + rect_width r - 1 \<and> rect_y r \<le> rect_y r + rect_height r - 1"

text \<open>
  \<open>TileOverlay.spawnTile\<close>: count the unfinished tiles of the same note, look the key up
  (first match), return without a tile when \<open>not key_rect\<close>, else append the new tile.
\<close>

definition spawnTile :: "(int \<Rightarrow> int) \<Rightarrow> string \<Rightarrow> int \<Rightarrow> ARPiano \<Rightarrow> FallingTile list \<Rightarrow> FallingTile list" where
  "spawnTile scale nm speed p tiles =
     (let active_count = length [t \<leftarrow> tiles. note_name t = nm \<and> \<not> is_finished t];
          x_offset = int active_count * 20
      in case first_button (keys_info p) nm of
           None \<Rightarrow> tiles
         | Some kr \<Rightarrow>
             if \<not> QRect_bool kr then tiles
             else tiles @ [FallingTile_init scale nm kr speed x_offset])"

section \<open>Tile scheduler\<close>

text \<open>
  The loop shared by \<open>spawnHappyBirthdayTiles\<close> and \<open>spawnInterstellarTiles\<close>:
  \<open>current_time += delta\<close>, then \<open>QTimer.singleShot(current_time, ...)\<close> with a callback
  that spawns a tile of that note with \<open>fall_speed=4\<close>. The result lists the single-shot
  timers requested: (delay in ms, note name, fall speed).
\<close>

fun schedule_tiles :: "int \<Rightarrow> (string \<times> int) list \<Rightarrow> (int \<times> string \<times> int) list" where
  "schedule_tiles current_time [] = []"
| "schedule_tiles current_time ((nm, delta) # melody) =
     (current_time + delta, nm, 4) # schedule_tiles (current_time + delta) melody"

definition happy_birthday :: "(string \<times> int) list" where
  "happy_birthday =
     [(''g4'', 0), (''g4'', 800), (''a4'', 800), (''g4'', 800), (''c5'', 800), (''b4'', 1000),
      (''g4'', 800), (''g4'', 800), (''a4'', 800), (''g4'', 800), (''d5'', 800), (''c5'', 1000),
      (''g4'', 800), (''g4'', 800), (''g5'', 800), (''e5'', 800), (''c5'', 800), (''b4'', 800),
      (''a4'', 1200),
      (''f5'', 800), (''f5'', 800), (''e5'', 800), (''c5'', 800), (''d5'', 800), (''c5'', 1000)]"

definition interstellar :: "(string \<times> int) list" where
  "interstellar =
     [(''c4'', 0), (''g4'', 800), (''g4'', 800), (''a4'', 1000),
      (''g4'', 800), (''f4'', 800), (''e4'', 1200), (''e4'', 800),
      (''g4'', 800), (''g4'', 1000)]"

definition spawnHappyBirthdayTiles :: "(int \<times> string \<times> int) list" where
  "spawnHappyBirthdayTiles = schedule_tiles 0 happy_birthday"

definition spawnInterstellarTiles :: "(int \<times> string \<times> int) list" where
  "spawnInterstellarTiles = schedule_tiles 0 interstellar"

text \<open>
  A single-shot timer requested at time \<open>start\<close> with delay \<open>d\<close> is due at \<open>start + d\<close>.
\<close>

definition due_times :: "int \<Rightarrow> (int \<times> string \<times> int) list \<Rightarrow> (int \<times> string) list" where
  "due_times start timers = map (\<lambda>(d, nm, speed). (start + d, nm)) timers"

text \<open>
  The onset times as the specification words them: \<open>onset[0] = delay[0]\<close> and
  \<open>onset[i] = onset[i-1] + delay[i]\<close>.
\<close>

fun spec_onset :: "(string \<times> int) list \<Rightarrow> nat \<Rightarrow> int" where
  "spec_onset melody 0 = snd (melody ! 0)"
| "spec_onset melody (Suc i) = spec_onset melody i + snd (melody ! Suc i)"

section \<open>Sample data\<close>

text \<open>
  Seven timer ticks: g4 is touched in the first three processed frames, the capture fails
  once, g4 stays touched for one more frame, is released, and is touched again.
\<close>

definition demo_frames :: "(int \<times> string set option) list" where
  "demo_frames =
     [(1, Some {''g4''}), (2, Some {''g4''}), (3, Some {''g4'', ''a4''}), (4, None),
      (5, Some {''g4''}), (6, Some {}), (7, Some {''g4''})]"

text \<open>
  A stand-in for \<open>int(w * 0.7)\<close>; the two agree at the width 50 of the sample key.
\<close>

definition demo_scale :: "int \<Rightarrow> int" where
  "demo_scale w = w * 7 div 10"

text \<open>A g4 tile of side 35 and speed 4 above the sample key, moved to height \<open>y\<close>.\<close>

definition demo_tile :: "int \<Rightarrow> int \<Rightarrow> FallingTile" where
  "demo_tile x_offset y = (FallingTile_init demo_scale ''g4'' demo_key 4 x_offset)\<lparr>tile_y := y\<rparr>"

section \<open>Facts about the note trigger\<close>

lemma sound_and_effect_score [simp]: "score (sound_and_effect n p) = score p"
  by (simp add: sound_and_effect_def Let_def split: option.split)

lemma sound_and_effect_collisions [simp]:
  "last_tile_collision_time_for_note (sound_and_effect n p) = last_tile_collision_time_for_note p"
  by (simp add: sound_and_effect_def Let_def split: option.split)

lemma sound_and_effect_muted [simp]:
  "auto_play_muted (sound_and_effect n p) = auto_play_muted p"
  by (simp add: sound_and_effect_def Let_def split: option.split)

lemma trigger_muted [simp]:
  "auto_play_muted (trigger_note_by_name n ft now p) = auto_play_muted p"
  by (simp add: trigger_note_by_name_def Let_def score_check_def addScore_def split: option.split)

lemma user_trigger_score:
  "auto_play_muted p \<Longrightarrow>
   score (trigger_note_by_name n False now p) =
     (case last_tile_collision_time_for_note p n of
        None \<Rightarrow> score p
      | Some r \<Rightarrow> if now - r \<le> 300 then score p + 10 else score p)"
  by (simp add: trigger_note_by_name_def Let_def score_check_def addScore_def
        tile_score_window_ms_def split: option.split)

lemma user_trigger_collisions:
  "auto_play_muted p \<Longrightarrow>
   last_tile_collision_time_for_note (trigger_note_by_name n False now p) =
     (last_tile_collision_time_for_note p)(n := None)"
  by (auto simp add: trigger_note_by_name_def Let_def score_check_def addScore_def
        split: option.split)

text \<open>
  C2. In teach mode (\<open>auto_play_muted\<close>, tiles silent), a user trigger of a note whose
  collision record is \<open>r\<close> adds exactly 10 to the score when \<open>now - r \<le> 300\<close> and
  nothing when \<open>now - r = 301\<close>; so a trigger at \<open>r + 300\<close> scores and one at
  \<open>r + 301\<close> does not.
\<close>

theorem C2_scoring_window:
  assumes "auto_play_muted p" and "last_tile_collision_time_for_note p n = Some r"
  shows "(now - r \<le> 300 \<longrightarrow> score (trigger_note_by_name n False now p) = score p + 10)
       \<and> (now - r = 301 \<longrightarrow> score (trigger_note_by_name n False now p) = score p)
       \<and> score (trigger_note_by_name n False (r + 300) p) = score p + 10
       \<and> score (trigger_note_by_name n False (r + 301) p) = score p"
  using assms by (simp add: user_trigger_score)

theorem C2_scoring_window_witness:
  "score (trigger_note_by_name ''g4'' False 1250 (demo_piano True)) = 10
   \<and> score (trigger_note_by_name ''g4'' False 1300 (demo_piano True)) = 10
   \<and> score (trigger_note_by_name ''g4'' False 1301 (demo_piano True)) = 0"
proof -
  have m: "auto_play_muted (demo_piano True)" by (simp add: demo_piano_def)
  have r: "last_tile_collision_time_for_note (demo_piano True) ''g4'' = Some 1000"
    by (simp add: demo_piano_def)
  have s: "score (demo_piano True) = 0" by (simp add: demo_piano_def)
  from C2_scoring_window [OF m r, of 1250] C2_scoring_window [OF m r, of 1300] s
  show ?thesis by simp
qed

text \<open>
  C3. In teach mode a user trigger that finds a collision record deletes it, whether or
  not the window matched: the record is gone afterwards, a second user trigger of the
  note adds nothing, the two together add at most 10, and a late hit adds nothing and
  still removes the record.
\<close>

theorem C3_record_single_use:
  assumes "auto_play_muted p" and "last_tile_collision_time_for_note p n = Some r"
  shows "last_tile_collision_time_for_note (trigger_note_by_name n False now p) n = None
       \<and> score (trigger_note_by_name n False now2 (trigger_note_by_name n False now p))
           = score (trigger_note_by_name n False now p)
       \<and> score (trigger_note_by_name n False now2 (trigger_note_by_name n False now p))
           \<le> score p + 10
       \<and> (now - r > 300 \<longrightarrow>
            score (trigger_note_by_name n False now p) = score p
          \<and> last_tile_collision_time_for_note (trigger_note_by_name n False now p) n = None)"
  using assms by (simp add: user_trigger_score user_trigger_collisions)

theorem C3_record_single_use_witness:
  "last_tile_collision_time_for_note
     (trigger_note_by_name ''g4'' False 1400 (demo_piano True)) ''g4'' = None
   \<and> score (trigger_note_by_name ''g4'' False 1400 (demo_piano True)) = 0
   \<and> score (trigger_note_by_name ''g4'' False 1250
              (trigger_note_by_name ''g4'' False 1400 (demo_piano True))) = 0"
proof -
  have m: "auto_play_muted (demo_piano True)" by (simp add: demo_piano_def)
  have r: "last_tile_collision_time_for_note (demo_piano True) ''g4'' = Some 1000"
    by (simp add: demo_piano_def)
  have s: "score (demo_piano True) = 0" by (simp add: demo_piano_def)
  from C3_record_single_use [OF m r, of 1400 1250] s show ?thesis by simp
qed

text \<open>
  C4, as the code has it. A user trigger queries the score check exactly when tiles are
  silent (\<open>auto_play_muted\<close>, that is auto-play disabled): the result is the sound and
  effect request applied to the score-checked state.
\<close>

theorem C4_score_query_when_muted:
  assumes "auto_play_muted p"
  shows "trigger_note_by_name n False now p =
           sound_and_effect n
             (score_check n now (p\<lparr>trigger_log := trigger_log p @ [(n, False, now)]\<rparr>))"
  using assms by (simp add: trigger_note_by_name_def Let_def)

theorem C4_score_query_when_muted_witness:
  "trigger_note_by_name ''g4'' False 1250 (demo_piano True) =
     sound_and_effect ''g4''
       (score_check ''g4'' 1250
          ((demo_piano True)\<lparr>trigger_log := trigger_log (demo_piano True) @ [(''g4'', False, 1250)]\<rparr>))
   \<and> score (trigger_note_by_name ''g4'' False 1250 (demo_piano True)) = 10"
proof -
  have m: "auto_play_muted (demo_piano True)" by (simp add: demo_piano_def)
  have "score (sound_and_effect ''g4''
       (score_check ''g4'' 1250
          ((demo_piano True)\<lparr>trigger_log := trigger_log (demo_piano True) @ [(''g4'', False, 1250)]\<rparr>))) = 10"
    by (simp add: score_check_def demo_piano_def addScore_def tile_score_window_ms_def)
  with C4_score_query_when_muted [OF m, of "''g4''" 1250] show ?thesis by simp
qed

text \<open>
  C4 as stated fails: with auto-play enabled (\<open>auto_play_muted = False\<close>, reached from
  the teach-mode piano by the toggle) and a pending record of g4 at 1000 ms, a user
  trigger at 1250 ms leaves the score at 0 and the record in place, where the score check
  would have given 10 and removed it.
\<close>

theorem C4_counterexample:
  "demo_piano False = toggleTeach (demo_piano True)
   \<and> \<not> auto_play_muted (demo_piano False)
   \<and> score (trigger_note_by_name ''g4'' False 1250 (demo_piano False)) = 0
   \<and> last_tile_collision_time_for_note
       (trigger_note_by_name ''g4'' False 1250 (demo_piano False)) ''g4'' = Some 1000
   \<and> score (score_check ''g4'' 1250 (demo_piano False)) = 10
   \<and> last_tile_collision_time_for_note (score_check ''g4'' 1250 (demo_piano False)) ''g4'' = None"
  by (simp add: demo_piano_def toggleTeach_def trigger_note_by_name_def Let_def
        score_check_def addScore_def tile_score_window_ms_def)

text \<open>
  C5. While auto-play is enabled (\<open>auto_play_muted = False\<close>) a user trigger leaves the
  score and every collision record as they were.
\<close>

theorem C5_no_scoring_in_auto_play:
  assumes "\<not> auto_play_muted p"
  shows "score (trigger_note_by_name n False now p) = score p
       \<and> last_tile_collision_time_for_note (trigger_note_by_name n False now p)
           = last_tile_collision_time_for_note p"
  using assms by (simp add: trigger_note_by_name_def Let_def)

theorem C5_no_scoring_in_auto_play_witness:
  "score (trigger_note_by_name ''g4'' False 1100 (demo_piano False)) = 0
   \<and> last_tile_collision_time_for_note
       (trigger_note_by_name ''g4'' False 1100 (demo_piano False)) ''g4'' = Some 1000"
proof -
  have m: "\<not> auto_play_muted (demo_piano False)" by (simp add: demo_piano_def)
  have d: "score (demo_piano False) = 0"
    "last_tile_collision_time_for_note (demo_piano False) ''g4'' = Some 1000"
    by (simp_all add: demo_piano_def)
  from C5_no_scoring_in_auto_play [OF m, of "''g4''" 1100] d show ?thesis by simp
qed

text \<open>
  C10. The window test has no lower bound: in teach mode a user trigger with
  \<open>now - r \<le> 300\<close> adds 10, and so does every trigger whose clock reading is earlier
  than the recorded collision time.
\<close>

theorem C10_no_lower_bound:
  assumes "auto_play_muted p" and "last_tile_collision_time_for_note p n = Some r"
  shows "(now - r \<le> 300 \<longrightarrow> score (trigger_note_by_name n False now p) = score p + 10)
       \<and> (now < r \<longrightarrow> score (trigger_note_by_name n False now p) = score p + 10)"
  using assms by (simp add: user_trigger_score)

theorem C10_no_lower_bound_witness:
  "(500::int) < 1000 \<and> score (trigger_note_by_name ''g4'' False 500 (demo_piano True)) = 10"
proof -
  have m: "auto_play_muted (demo_piano True)" by (simp add: demo_piano_def)
  have r: "last_tile_collision_time_for_note (demo_piano True) ''g4'' = Some 1000"
    by (simp add: demo_piano_def)
  have s: "score (demo_piano True) = 0" by (simp add: demo_piano_def)
  from C10_no_lower_bound [OF m r, of 500] s show ?thesis by simp
qed

section \<open>Facts about the touch-lift loop\<close>


lemma sound_and_effect_log [simp]: "trigger_log (sound_and_effect n p) = trigger_log p"
  by (simp add: sound_and_effect_def Let_def split: option.split)

lemma sound_and_effect_keys [simp]: "keys_info (sound_and_effect n p) = keys_info p"
  by (simp add: sound_and_effect_def Let_def split: option.split)

lemma sound_and_effect_held [simp]: "is_held (sound_and_effect n p) = is_held p"
  by (simp add: sound_and_effect_def Let_def split: option.split)

lemma score_check_log [simp]: "trigger_log (score_check n now p) = trigger_log p"
  by (simp add: score_check_def Let_def addScore_def split: option.split)

lemma score_check_keys [simp]: "keys_info (score_check n now p) = keys_info p"
  by (simp add: score_check_def Let_def addScore_def split: option.split)

lemma score_check_held [simp]: "is_held (score_check n now p) = is_held p"
  by (simp add: score_check_def Let_def addScore_def split: option.split)

lemma trigger_log_trigger [simp]:
  "trigger_log (trigger_note_by_name n ft now p) = trigger_log p @ [(n, ft, now)]"
  by (simp add: trigger_note_by_name_def Let_def)

lemma trigger_keys [simp]: "keys_info (trigger_note_by_name n ft now p) = keys_info p"
  by (simp add: trigger_note_by_name_def Let_def)

lemma trigger_held [simp]: "is_held (trigger_note_by_name n ft now p) = is_held p"
  by (simp add: trigger_note_by_name_def Let_def)

lemma note_ons_trigger:
  "note_ons nm (trigger_note_by_name n ft now p) =
     note_ons nm p @ (if n = nm then [(n, ft, now)] else [])"
  by (simp add: note_ons_def)

lemma note_ons_held_update [simp]: "note_ons nm (p\<lparr>is_held := h\<rparr>) = note_ons nm p"
  by (simp add: note_ons_def)

lemma init_is_held_apply:
  "init_is_held ks m nm = (if nm \<in> snd ` set ks then Some False else m nm)"
proof (induction ks arbitrary: m)
  case Nil
  then show ?case by simp
next
  case (Cons k ks)
  obtain btn n where k: "k = (btn, n)" by (cases k)
  show ?case by (simp add: k Cons.IH)
qed

lemma touch_lift_untouched:
  "nm \<notin> touched \<Longrightarrow> touch_lift ks touched now q = Inr q' \<Longrightarrow> note_ons nm q' = note_ons nm q"
proof (induction ks arbitrary: q)
  case Nil
  then show ?case by simp
next
  case (Cons k ks)
  obtain btn n where k: "k = (btn, n)" by (cases k)
  from Cons.prems Cons.IH show ?case
    by (auto simp: k note_ons_trigger split: option.splits if_splits)
qed

lemma touch_lift_step:
  assumes "snd ` set ks \<subseteq> dom (is_held p)"
  shows "\<exists>p'. touch_lift ks touched now p = Inr p'
           \<and> keys_info p' = keys_info p
           \<and> (\<forall>nm. is_held p' nm =
                 (if nm \<in> snd ` set ks then Some (nm \<in> touched) else is_held p nm))
           \<and> (\<forall>nm. note_ons nm p' = note_ons nm p @
                 (if nm \<in> snd ` set ks \<and> nm \<in> touched \<and> is_held p nm = Some False
                  then [(nm, False, now)] else []))"
  using assms
proof (induction ks arbitrary: p)
  case Nil
  then show ?case by simp
next
  case (Cons k ks)
  obtain btn n where k: "k = (btn, n)" by (cases k)
  from Cons.prems obtain held where held: "is_held p n = Some held"
    by (auto simp: k)
  from Cons.prems have sub: "snd ` set ks \<subseteq> dom (is_held p)" by simp
  let ?p1 = "(trigger_note_by_name n False now p)
               \<lparr>is_held := (is_held (trigger_note_by_name n False now p))(n \<mapsto> True)\<rparr>"
  let ?p2 = "p\<lparr>is_held := (is_held p)(n \<mapsto> False)\<rparr>"
  consider (fire) "n \<in> touched" "\<not> held" | (hold) "n \<in> touched" "held"
    | (release) "n \<notin> touched" "held" | (idle) "n \<notin> touched" "\<not> held"
    by blast
  then show ?case
  proof cases
    case fire
    have "snd ` set ks \<subseteq> dom (is_held ?p1)" using sub by auto
    from Cons.IH [OF this] obtain p' where
      p': "touch_lift ks touched now ?p1 = Inr p'" "keys_info p' = keys_info ?p1"
        "\<forall>nm. is_held p' nm = (if nm \<in> snd ` set ks then Some (nm \<in> touched) else is_held ?p1 nm)"
        "\<forall>nm. note_ons nm p' = note_ons nm ?p1 @
                 (if nm \<in> snd ` set ks \<and> nm \<in> touched \<and> is_held ?p1 nm = Some False
                  then [(nm, False, now)] else [])"
      by blast
    have "touch_lift (k # ks) touched now p = Inr p'"
      using fire held p'(1) by (simp add: k)
    moreover have "keys_info p' = keys_info p" using p'(2) by simp
    moreover have "\<forall>nm. is_held p' nm =
                 (if nm \<in> snd ` set (k # ks) then Some (nm \<in> touched) else is_held p nm)"
      using p'(3) fire by (auto simp: k)
    moreover have "\<forall>nm. note_ons nm p' = note_ons nm p @
                 (if nm \<in> snd ` set (k # ks) \<and> nm \<in> touched \<and> is_held p nm = Some False
                  then [(nm, False, now)] else [])"
      using p'(4) fire held by (auto simp: k note_ons_trigger)
    ultimately show ?thesis by blast
  next
    case hold
    from Cons.IH [OF sub] obtain p' where
      p': "touch_lift ks touched now p = Inr p'" "keys_info p' = keys_info p"
        "\<forall>nm. is_held p' nm = (if nm \<in> snd ` set ks then Some (nm \<in> touched) else is_held p nm)"
        "\<forall>nm. note_ons nm p' = note_ons nm p @
                 (if nm \<in> snd ` set ks \<and> nm \<in> touched \<and> is_held p nm = Some False
                  then [(nm, False, now)] else [])"
      by blast
    have "touch_lift (k # ks) touched now p = Inr p'"
      using hold held p'(1) by (simp add: k)
    moreover have "\<forall>nm. is_held p' nm =
                 (if nm \<in> snd ` set (k # ks) then Some (nm \<in> touched) else is_held p nm)"
      using p'(3) hold held by (auto simp: k)
    moreover have "\<forall>nm. note_ons nm p' = note_ons nm p @
                 (if nm \<in> snd ` set (k # ks) \<and> nm \<in> touched \<and> is_held p nm = Some False
                  then [(nm, False, now)] else [])"
      using p'(4) hold held by (auto simp: k)
    ultimately show ?thesis using p'(2) by blast
  next
    case release
    have "snd ` set ks \<subseteq> dom (is_held ?p2)" using sub by auto
    from Cons.IH [OF this] obtain p' where
      p': "touch_lift ks touched now ?p2 = Inr p'" "keys_info p' = keys_info ?p2"
        "\<forall>nm. is_held p' nm = (if nm \<in> snd ` set ks then Some (nm \<in> touched) else is_held ?p2 nm)"
        "\<forall>nm. note_ons nm p' = note_ons nm ?p2 @
                 (if nm \<in> snd ` set ks \<and> nm \<in> touched \<and> is_held ?p2 nm = Some False
                  then [(nm, False, now)] else [])"
      by blast
    have "touch_lift (k # ks) touched now p = Inr p'"
      using release held p'(1) by (simp add: k)
    moreover have "keys_info p' = keys_info p" using p'(2) by simp
    moreover have "\<forall>nm. is_held p' nm =
                 (if nm \<in> snd ` set (k # ks) then Some (nm \<in> touched) else is_held p nm)"
      using p'(3) release by (auto simp: k)
    moreover have "\<forall>nm. note_ons nm p' = note_ons nm p @
                 (if nm \<in> snd ` set (k # ks) \<and> nm \<in> touched \<and> is_held p nm = Some False
                  then [(nm, False, now)] else [])"
      using p'(4) release held by (auto simp: k)
    ultimately show ?thesis by blast
  next
    case idle
    from Cons.IH [OF sub] obtain p' where
      p': "touch_lift ks touched now p = Inr p'" "keys_info p' = keys_info p"
        "\<forall>nm. is_held p' nm = (if nm \<in> snd ` set ks then Some (nm \<in> touched) else is_held p nm)"
        "\<forall>nm. note_ons nm p' = note_ons nm p @
                 (if nm \<in> snd ` set ks \<and> nm \<in> touched \<and> is_held p nm = Some False
                  then [(nm, False, now)] else [])"
      by blast
    have "touch_lift (k # ks) touched now p = Inr p'"
      using idle held p'(1) by (simp add: k)
    moreover have "\<forall>nm. is_held p' nm =
                 (if nm \<in> snd ` set (k # ks) then Some (nm \<in> touched) else is_held p nm)"
      using p'(3) idle held by (auto simp: k)
    moreover have "\<forall>nm. note_ons nm p' = note_ons nm p @
                 (if nm \<in> snd ` set (k # ks) \<and> nm \<in> touched \<and> is_held p nm = Some False
                  then [(nm, False, now)] else [])"
      using p'(4) idle held by (auto simp: k)
    ultimately show ?thesis using p'(2) by blast
  qed
qed


lemma filter_upt_Suc:
  "[i \<leftarrow> [0..<Suc n]. P i] = (if P 0 then [0] else []) @ map Suc [i \<leftarrow> [0..<n]. P (Suc i)]"
proof -
  have "[0..<Suc n] = 0 # map Suc [0..<n]"
    by (simp add: upt_conv_Cons map_Suc_upt del: upt_Suc)
  then show ?thesis by (simp add: filter_map comp_def del: upt_Suc)
qed

lemma run_starts_Cons:
  "[i \<leftarrow> [0..<length (b # bs)]. (b # bs) ! i \<and> \<not> (prev # b # bs) ! i]
     = (if b \<and> \<not> prev then [0] else []) @ map Suc [i \<leftarrow> [0..<length bs]. bs ! i \<and> \<not> (b # bs) ! i]"
  using filter_upt_Suc [of "\<lambda>i. (b # bs) ! i \<and> \<not> (prev # b # bs) ! i" "length bs"]
  by simp

lemma run_starts_alt:
  "run_starts bs = [i \<leftarrow> [0..<length bs]. bs ! i \<and> \<not> (False # bs) ! i]"
  unfolding run_starts_def
  by (rule filter_cong) (auto simp: nth_Cons split: nat.splits)

lemma runs_count:
  "length [i \<leftarrow> [0..<length bs]. bs ! i \<and> \<not> (prev # bs) ! i] + (if prev then 1 else 0)
     = length [b \<leftarrow> remdups_adj (prev # bs). b]"
proof (induction bs arbitrary: prev)
  case Nil
  then show ?case by simp
next
  case (Cons b bs)
  from Cons.IH [of b] show ?case
    by (simp only: run_starts_Cons) (auto simp del: upt_Suc)
qed

lemma remdups_adj_False: "[b \<leftarrow> remdups_adj (False # bs). b] = [b \<leftarrow> remdups_adj bs. b]"
  by (cases bs) auto

lemma length_run_starts: "length (run_starts bs) = touched_runs bs"
  using runs_count [of bs False] by (simp add: run_starts_alt touched_runs_def remdups_adj_False)


lemma camera_ticks_events:
  assumes "snd ` set (keys_info p) \<subseteq> dom (is_held p)"
    and "nm \<in> snd ` set (keys_info p)"
    and "is_held p nm = Some prev"
  shows "\<exists>p'. camera_ticks frames p = Inr p'
           \<and> note_ons nm p' = note_ons nm p @
               map (\<lambda>i. (nm, False, fst (processed frames ! i)))
                 [i \<leftarrow> [0..<length (touched_seq nm (processed frames))].
                    touched_seq nm (processed frames) ! i
                    \<and> \<not> (prev # touched_seq nm (processed frames)) ! i]"
  using assms
proof (induction frames arbitrary: p prev)
  case Nil
  then show ?case by (simp add: touched_seq_def)
next
  case (Cons f frames)
  obtain now fr where f: "f = (now, fr)" by (cases f)
  show ?case
  proof (cases fr)
    case None
    from Cons.IH [OF Cons.prems] show ?thesis
      by (simp add: f None update_camera_def)
  next
    case (Some t)
    from touch_lift_step [OF Cons.prems(1), of t now] obtain p1 where
      p1: "touch_lift (keys_info p) t now p = Inr p1" "keys_info p1 = keys_info p"
        "\<forall>n. is_held p1 n =
                 (if n \<in> snd ` set (keys_info p) then Some (n \<in> t) else is_held p n)"
        "\<forall>n. note_ons n p1 = note_ons n p @
                 (if n \<in> snd ` set (keys_info p) \<and> n \<in> t \<and> is_held p n = Some False
                  then [(n, False, now)] else [])"
      by blast
    have a: "snd ` set (keys_info p1) \<subseteq> dom (is_held p1)"
      using p1(2,3) by (auto simp: dom_def)
    have b: "nm \<in> snd ` set (keys_info p1)" using p1(2) Cons.prems(2) by simp
    have c: "is_held p1 nm = Some (nm \<in> t)" using p1(3) Cons.prems(2) by simp
    from Cons.IH [OF a b c] obtain p' where
      p': "camera_ticks frames p1 = Inr p'"
        "note_ons nm p' = note_ons nm p1 @
               map (\<lambda>i. (nm, False, fst (processed frames ! i)))
                 [i \<leftarrow> [0..<length (touched_seq nm (processed frames))].
                    touched_seq nm (processed frames) ! i
                    \<and> \<not> ((nm \<in> t) # touched_seq nm (processed frames)) ! i]"
      by blast
    have run: "camera_ticks (f # frames) p = Inr p'"
      using p1(1) p'(1) by (simp add: f Some update_camera_def)
    have seq: "touched_seq nm (processed (f # frames)) = (nm \<in> t) # touched_seq nm (processed frames)"
      by (simp add: f Some touched_seq_def)
    have first: "note_ons nm p1 = note_ons nm p @ (if nm \<in> t \<and> \<not> prev then [(nm, False, now)] else [])"
      using p1(4) Cons.prems(2,3) by simp
    have "note_ons nm p' = note_ons nm p @
               map (\<lambda>i. (nm, False, fst (processed (f # frames) ! i)))
                 [i \<leftarrow> [0..<length (touched_seq nm (processed (f # frames)))].
                    touched_seq nm (processed (f # frames)) ! i
                    \<and> \<not> (prev # touched_seq nm (processed (f # frames))) ! i]"
      unfolding seq run_starts_Cons p'(2) first
      by (simp add: f Some comp_def)
    with run show ?thesis by blast
  qed
qed

text \<open>
  C1. From the state \<open>__init__\<close> leaves (no key held), for any sequence of timer ticks and
  any key \<open>nm\<close> of the layout: the run raises nothing, and the note-on events of \<open>nm\<close>
  it adds are exactly one per maximal contiguous touched run of \<open>nm\<close> over the processed
  frames, each with the clock reading of the first frame of its run; their number is the
  number of such runs. A frame in which \<open>nm\<close> is not touched, a release among them, adds
  no event of \<open>nm\<close>.
\<close>

theorem C1_edge_triggered:
  assumes "is_held p = init_is_held (keys_info p) Map.empty"
    and "nm \<in> snd ` set (keys_info p)"
  shows "\<exists>p'. camera_ticks frames p = Inr p'
           \<and> note_ons nm p' = note_ons nm p @
               map (\<lambda>i. (nm, False, fst (processed frames ! i)))
                 (run_starts (touched_seq nm (processed frames)))
           \<and> length (note_ons nm p') =
               length (note_ons nm p) + touched_runs (touched_seq nm (processed frames))
           \<and> (\<forall>touched now q q'. nm \<notin> touched \<longrightarrow>
                 update_camera (Some touched) now q = Inr q' \<longrightarrow> note_ons nm q' = note_ons nm q)"
proof -
  have a: "snd ` set (keys_info p) \<subseteq> dom (is_held p)"
    using assms(1) by (auto simp: dom_def init_is_held_apply)
  have c: "is_held p nm = Some False"
    using assms by (simp add: init_is_held_apply)
  from camera_ticks_events [OF a assms(2) c, of frames] obtain p' where
    p': "camera_ticks frames p = Inr p'"
      "note_ons nm p' = note_ons nm p @
               map (\<lambda>i. (nm, False, fst (processed frames ! i)))
                 (run_starts (touched_seq nm (processed frames)))"
    unfolding run_starts_alt by blast
  have "length (note_ons nm p') =
               length (note_ons nm p) + touched_runs (touched_seq nm (processed frames))"
    by (simp add: p'(2) length_run_starts)
  moreover have "\<forall>touched now q q'. nm \<notin> touched \<longrightarrow>
                 update_camera (Some touched) now q = Inr q' \<longrightarrow> note_ons nm q' = note_ons nm q"
    by (auto simp: update_camera_def dest: touch_lift_untouched)
  ultimately show ?thesis using p' by blast
qed

theorem C1_edge_triggered_witness:
  "\<exists>p'. camera_ticks demo_frames (demo_piano True) = Inr p'
     \<and> note_ons ''g4'' p' = [(''g4'', False, 1), (''g4'', False, 7)]
     \<and> touched_runs (touched_seq ''g4'' (processed demo_frames)) = 2"
proof -
  have a: "is_held (demo_piano True) = init_is_held (keys_info (demo_piano True)) Map.empty"
    by (simp add: demo_piano_def)
  have b: "''g4'' \<in> snd ` set (keys_info (demo_piano True))"
    by (simp add: demo_piano_def)
  have r: "run_starts (touched_seq ''g4'' (processed demo_frames)) = [0, 5]"
    by (simp add: run_starts_def touched_seq_def demo_frames_def upt_rec)
  have t: "touched_runs (touched_seq ''g4'' (processed demo_frames)) = 2"
    by (simp add: touched_runs_def touched_seq_def demo_frames_def)
  have n: "note_ons ''g4'' (demo_piano True) = []"
    by (simp add: note_ons_def demo_piano_def)
  have e: "map (\<lambda>i. (''g4'', False, fst (processed demo_frames ! i))) [0, 5]
             = [(''g4'', False, 1), (''g4'', False, 7)]"
    by (simp add: demo_frames_def)
  from C1_edge_triggered [OF a b, of demo_frames] obtain p' where
    "camera_ticks demo_frames (demo_piano True) = Inr p'"
    "note_ons ''g4'' p' = note_ons ''g4'' (demo_piano True) @
       map (\<lambda>i. (''g4'', False, fst (processed demo_frames ! i)))
         (run_starts (touched_seq ''g4'' (processed demo_frames)))"
    by blast
  then show ?thesis unfolding r n e using t by simp
qed

section \<open>Facts about the scheduler\<close>



lemma spec_onset_Cons: "spec_onset (x # melody) (Suc i) = snd x + spec_onset melody i"
  by (induction i) auto

lemma schedule_tiles_nth:
  "i < length melody \<Longrightarrow>
   schedule_tiles c melody ! i = (c + spec_onset melody i, fst (melody ! i), 4)"
proof (induction melody arbitrary: c i)
  case Nil
  then show ?case by simp
next
  case (Cons x melody)
  obtain nm delta where x: "x = (nm, delta)" by (cases x)
  show ?case
  proof (cases i)
    case 0
    then show ?thesis by (simp add: x)
  next
    case (Suc j)
    with Cons.prems have "j < length melody" by simp
    from Cons.IH [OF this, of "c + delta"] show ?thesis
      by (simp add: x Suc spec_onset_Cons del: spec_onset.simps)
  qed
qed

lemma length_schedule_tiles: "length (schedule_tiles c melody) = length melody"
  by (induction melody arbitrary: c) auto

text \<open>
  C7. The timers that the scheduling loop requests for a melody are, in order, one per
  entry, the i-th with the delay \<open>onset[i]\<close> of the specification
  (\<open>onset[0] = delay[0]\<close>, \<open>onset[i] = onset[i-1] + delay[i]\<close>), the entry's note and
  fall speed 4. For the melody c4 after 0 ms, d4 after 500 ms, requested at time \<open>T\<close>,
  the c4 timer is due at \<open>T\<close> and the d4 timer at \<open>T + 500\<close>; no frame tick enters the
  computation.
\<close>

theorem C7_cumulative_onsets:
  "length (schedule_tiles 0 melody) = length melody
   \<and> (\<forall>i < length melody.
         schedule_tiles 0 melody ! i = (spec_onset melody i, fst (melody ! i), 4))
   \<and> due_times T (schedule_tiles 0 [(''c4'', 0), (''d4'', 500)])
        = [(T, ''c4''), (T + 500, ''d4'')]"
  by (simp add: length_schedule_tiles schedule_tiles_nth due_times_def)

theorem C7_cumulative_onsets_witness:
  "spawnInterstellarTiles ! 3 = (2600, ''a4'', 4)
   \<and> spawnHappyBirthdayTiles ! 5 = (4200, ''b4'', 4)"
proof -
  have a: "(3::nat) < length interstellar" by (simp add: interstellar_def)
  have b: "(5::nat) < length happy_birthday" by (simp add: happy_birthday_def)
  have c: "spec_onset interstellar 3 = 2600" "fst (interstellar ! 3) = ''a4''"
    by (simp_all add: interstellar_def eval_nat_numeral)
  have d: "spec_onset happy_birthday 5 = 4200" "fst (happy_birthday ! 5) = ''b4''"
    by (simp_all add: happy_birthday_def eval_nat_numeral)
  from C7_cumulative_onsets [of interstellar] a
  have "schedule_tiles 0 interstellar ! 3 = (spec_onset interstellar 3, fst (interstellar ! 3), 4)"
    by blast
  moreover from C7_cumulative_onsets [of happy_birthday] b
  have "schedule_tiles 0 happy_birthday ! 5
          = (spec_onset happy_birthday 5, fst (happy_birthday ! 5), 4)"
    by blast
  ultimately show ?thesis
    unfolding c d spawnInterstellarTiles_def spawnHappyBirthdayTiles_def by simp
qed

section \<open>Facts about the tiles\<close>

lemma first_button_None: "first_button ks nm = None \<longleftrightarrow> nm \<notin> snd ` set ks"
  by (induction ks) (auto simp: image_iff split: if_splits)



lemma update_position_tile:
  "\<not> is_finished t \<Longrightarrow>
   fst (update_position now t p) =
     t\<lparr>tile_y := tile_y t + fall_speed t,
       is_finished := (tile_y t + fall_speed t + tile_height t \<ge> rect_y (key_rect t))\<rparr>"
  by (simp add: update_position_def Let_def)

lemma fall_snoc:
  "fall (nows @ [now]) t p = update_position now (fst (fall nows t p)) (snd (fall nows t p))"
  by (induction nows arbitrary: t p) (auto split: prod.splits)

lemma fall_Cons:
  "fall (now # nows) t p =
     fall nows (fst (update_position now t p)) (snd (update_position now t p))"
  by (simp split: prod.splits)

lemma fall_before_collision:
  assumes "\<not> is_finished t"
    and "\<forall>j\<in>{1..length nows}. tile_y t + int j * fall_speed t + tile_height t < rect_y (key_rect t)"
  shows "fst (fall nows t p) = t\<lparr>tile_y := tile_y t + int (length nows) * fall_speed t\<rparr>"
  using assms
proof (induction nows arbitrary: t p)
  case Nil
  then show ?case by simp
next
  case (Cons now nows)
  let ?t1 = "t\<lparr>tile_y := tile_y t + fall_speed t\<rparr>"
  from Cons.prems(2) have "tile_y t + int 1 * fall_speed t + tile_height t < rect_y (key_rect t)"
    by (metis One_nat_def atLeastAtMost_iff le_refl length_Cons le_add1 plus_1_eq_Suc)
  then have one: "tile_y t + fall_speed t + tile_height t < rect_y (key_rect t)" by simp
  with Cons.prems(1) have step: "fst (update_position now t p) = ?t1"
    by (simp add: update_position_tile)
  have nf: "\<not> is_finished ?t1" using Cons.prems(1) by simp
  have rest: "\<forall>j\<in>{1..length nows}.
      tile_y ?t1 + int j * fall_speed ?t1 + tile_height ?t1 < rect_y (key_rect ?t1)"
  proof
    fix j assume "j \<in> {1..length nows}"
    then have "Suc j \<in> {1..length (now # nows)}" by simp
    with Cons.prems(2) have
      "tile_y t + int (Suc j) * fall_speed t + tile_height t < rect_y (key_rect t)" by blast
    then show "tile_y ?t1 + int j * fall_speed ?t1 + tile_height ?t1 < rect_y (key_rect ?t1)"
      by (simp add: algebra_simps)
  qed
  from Cons.IH [OF nf rest, of "snd (update_position now t p)"] step
  show ?case by (simp add: fall_Cons algebra_simps del: fall.simps)
qed

lemma fall_first_collision:
  assumes "\<not> is_finished t"
    and "\<forall>j\<in>{1..length nows}. tile_y t + int j * fall_speed t + tile_height t < rect_y (key_rect t)"
    and "tile_y t + int (Suc (length nows)) * fall_speed t + tile_height t \<ge> rect_y (key_rect t)"
  shows "\<not> is_finished (fst (fall nows t p)) \<and> is_finished (fst (fall (nows @ [now]) t p))"
proof -
  from fall_before_collision [OF assms(1,2)] have
    eq: "fst (fall nows t p) = t\<lparr>tile_y := tile_y t + int (length nows) * fall_speed t\<rparr>" .
  then have nf: "\<not> is_finished (fst (fall nows t p))" using assms(1) by simp
  have fields: "tile_y (fst (fall nows t p)) = tile_y t + int (length nows) * fall_speed t"
    "fall_speed (fst (fall nows t p)) = fall_speed t"
    "tile_height (fst (fall nows t p)) = tile_height t"
    "key_rect (fst (fall nows t p)) = key_rect t"
    by (simp_all add: eq)
  have "is_finished (fst (fall (nows @ [now]) t p))"
    using assms(3) unfolding fall_snoc update_position_tile [OF nf] fields
    by (simp add: algebra_simps)
  with nf show ?thesis by blast
qed

lemma update_tiles_unfinished:
  "t' \<in> set (fst (update_tiles now ts p)) \<Longrightarrow> \<not> is_finished t'"
proof (induction ts arbitrary: p)
  case Nil
  then show ?case by simp
next
  case (Cons t ts)
  obtain t1 p1 where u: "update_position now t p = (t1, p1)" by force
  obtain ts2 p2 where v: "update_tiles now ts p1 = (ts2, p2)" by force
  from Cons.prems have "t' \<in> set ts2 \<or> (t' = t1 \<and> \<not> is_finished t1)"
    by (auto simp: u v split: if_splits)
  moreover from Cons.IH [of p1] have "t' \<in> set ts2 \<Longrightarrow> \<not> is_finished t'"
    by (simp add: v)
  ultimately show ?case by blast
qed

lemma update_position_offset:
  "fst (update_position now (t\<lparr>tile_x := a\<rparr>) q) = (fst (update_position now' t q'))\<lparr>tile_x := a\<rparr>"
  by (simp add: update_position_def Let_def)

lemma fall_offset:
  "length nows = length nows' \<Longrightarrow>
   fst (fall nows (t\<lparr>tile_x := a\<rparr>) q) = (fst (fall nows' t q'))\<lparr>tile_x := a\<rparr>"
proof (induction nows nows' arbitrary: t q q' rule: list_induct2)
  case Nil
  then show ?case by simp
next
  case (Cons now nows now' nows')
  obtain t1 q1 where u1: "update_position now (t\<lparr>tile_x := a\<rparr>) q = (t1, q1)" by force
  obtain t2 q2 where u2: "update_position now' t q' = (t2, q2)" by force
  from update_position_offset [where now = now and t = t and a = a and q = q
      and now' = now' and q' = q'] u1 u2 have "t1 = t2\<lparr>tile_x := a\<rparr>" by simp
  with Cons.IH [of t2 q1 q2] show ?case by (simp add: u1 u2)
qed

lemma FallingTile_init_offset:
  "FallingTile_init scale nm kr speed off =
     (FallingTile_init scale nm kr speed 0)\<lparr>tile_x := tile_x (FallingTile_init scale nm kr speed 0) + off\<rparr>"
  by (simp add: FallingTile_init_def Let_def)

lemma demo_tile_fields:
  "note_name (demo_tile a y) = ''g4''" "key_rect (demo_tile a y) = demo_key"
  "fall_speed (demo_tile a y) = 4" "\<not> is_finished (demo_tile a y)"
  "tile_x (demo_tile a y) = 7 + a" "tile_y (demo_tile a y) = y"
  "tile_height (demo_tile a y) = 35"
  by (simp_all add: demo_tile_def FallingTile_init_def demo_scale_def demo_key_def Let_def)

text \<open>
  C6. An update of a finished tile changes nothing. An update of an unfinished tile adds
  its fall speed to its vertical position and keeps its horizontal position; the tile is
  finished afterwards exactly when its bottom edge has reached or passed the key's top
  edge. Without that collision the piano is unchanged; with it, when auto-play is
  enabled (\<open>auto_play_muted = False\<close>) the piano is the one after
  \<open>trigger_note_by_name\<close> with \<open>from_tile = True\<close>, and otherwise the note's collision
  record is set to the current time whatever it was before, so a later user trigger is
  scored against this time alone. Over successive frames the tile is unfinished up to
  the first frame whose update brings the bottom edge to the key's top edge, and
  finished from that frame.
\<close>

theorem C6_tile_update:
  "(is_finished t \<longrightarrow> update_position now t p = (t, p))
   \<and> (\<not> is_finished t \<longrightarrow>
        tile_y (fst (update_position now t p)) = tile_y t + fall_speed t
      \<and> tile_x (fst (update_position now t p)) = tile_x t
      \<and> is_finished (fst (update_position now t p))
          = (tile_y t + fall_speed t + tile_height t \<ge> rect_y (key_rect t))
      \<and> (tile_y t + fall_speed t + tile_height t < rect_y (key_rect t) \<longrightarrow>
           snd (update_position now t p) = p)
      \<and> (tile_y t + fall_speed t + tile_height t \<ge> rect_y (key_rect t) \<and> \<not> auto_play_muted p \<longrightarrow>
           snd (update_position now t p) = trigger_note_by_name (note_name t) True now p)
      \<and> (tile_y t + fall_speed t + tile_height t \<ge> rect_y (key_rect t) \<and> auto_play_muted p \<longrightarrow>
           snd (update_position now t p)
             = p\<lparr>last_tile_collision_time_for_note :=
                   (last_tile_collision_time_for_note p)(note_name t \<mapsto> now)\<rparr>
         \<and> last_tile_collision_time_for_note (snd (update_position now t p)) (note_name t) = Some now
         \<and> score (trigger_note_by_name (note_name t) False now' (snd (update_position now t p)))
             = (if now' - now \<le> 300 then score p + 10 else score p)))
   \<and> (\<not> is_finished t
        \<and> (\<forall>j\<in>{1..length nows}.
              tile_y t + int j * fall_speed t + tile_height t < rect_y (key_rect t))
        \<and> tile_y t + int (Suc (length nows)) * fall_speed t + tile_height t \<ge> rect_y (key_rect t)
      \<longrightarrow> \<not> is_finished (fst (fall nows t p)) \<and> is_finished (fst (fall (nows @ [now]) t p)))"
proof -
  have "is_finished t \<longrightarrow> update_position now t p = (t, p)"
    by (simp add: update_position_def)
  moreover have "\<not> is_finished t \<longrightarrow>
        tile_y (fst (update_position now t p)) = tile_y t + fall_speed t
      \<and> tile_x (fst (update_position now t p)) = tile_x t
      \<and> is_finished (fst (update_position now t p))
          = (tile_y t + fall_speed t + tile_height t \<ge> rect_y (key_rect t))
      \<and> (tile_y t + fall_speed t + tile_height t < rect_y (key_rect t) \<longrightarrow>
           snd (update_position now t p) = p)
      \<and> (tile_y t + fall_speed t + tile_height t \<ge> rect_y (key_rect t) \<and> \<not> auto_play_muted p \<longrightarrow>
           snd (update_position now t p) = trigger_note_by_name (note_name t) True now p)
      \<and> (tile_y t + fall_speed t + tile_height t \<ge> rect_y (key_rect t) \<and> auto_play_muted p \<longrightarrow>
           snd (update_position now t p)
             = p\<lparr>last_tile_collision_time_for_note :=
                   (last_tile_collision_time_for_note p)(note_name t \<mapsto> now)\<rparr>
         \<and> last_tile_collision_time_for_note (snd (update_position now t p)) (note_name t) = Some now
         \<and> score (trigger_note_by_name (note_name t) False now' (snd (update_position now t p)))
             = (if now' - now \<le> 300 then score p + 10 else score p))"
    by (simp add: update_position_def Let_def user_trigger_score)
  moreover have "\<not> is_finished t
        \<and> (\<forall>j\<in>{1..length nows}.
              tile_y t + int j * fall_speed t + tile_height t < rect_y (key_rect t))
        \<and> tile_y t + int (Suc (length nows)) * fall_speed t + tile_height t \<ge> rect_y (key_rect t)
      \<longrightarrow> \<not> is_finished (fst (fall nows t p)) \<and> is_finished (fst (fall (nows @ [now]) t p))"
    using fall_first_collision [of t nows p now] by blast
  ultimately show ?thesis by blast
qed

theorem C6_tile_update_witness:
  "is_finished (fst (update_position 2000 (demo_tile 0 361) (demo_piano True)))
   \<and> tile_y (fst (update_position 2000 (demo_tile 0 361) (demo_piano True))) = 365
   \<and> last_tile_collision_time_for_note
        (snd (update_position 2000 (demo_tile 0 361) (demo_piano True))) ''g4'' = Some 2000
   \<and> score (trigger_note_by_name ''g4'' False 2300
              (snd (update_position 2000 (demo_tile 0 361) (demo_piano True)))) = 10
   \<and> snd (update_position 2000 (demo_tile 0 361) (demo_piano False))
        = trigger_note_by_name ''g4'' True 2000 (demo_piano False)
   \<and> \<not> is_finished (fst (update_position 2000 (demo_tile 0 353) (demo_piano True)))
   \<and> snd (update_position 2000 (demo_tile 0 353) (demo_piano True)) = demo_piano True
   \<and> \<not> is_finished (fst (fall [1000, 1033] (demo_tile 0 353) (demo_piano True)))
   \<and> is_finished (fst (fall ([1000, 1033] @ [1066]) (demo_tile 0 353) (demo_piano True)))"
proof -
  have m: "auto_play_muted (demo_piano True)" "\<not> auto_play_muted (demo_piano False)"
    "score (demo_piano True) = 0"
    by (simp_all add: demo_piano_def)
  have k: "rect_y demo_key = 400" by (simp add: demo_key_def)
  have q: "\<forall>j\<in>{1..length [1000, 1033 :: int]}.
             tile_y (demo_tile 0 353) + int j * fall_speed (demo_tile 0 353)
               + tile_height (demo_tile 0 353) < rect_y (key_rect (demo_tile 0 353))"
    by (auto simp: demo_tile_fields k)
  from C6_tile_update [of "demo_tile 0 361" 2000 "demo_piano True" 2300 "[]"]
  have a: "is_finished (fst (update_position 2000 (demo_tile 0 361) (demo_piano True)))
   \<and> tile_y (fst (update_position 2000 (demo_tile 0 361) (demo_piano True))) = 365
   \<and> last_tile_collision_time_for_note
        (snd (update_position 2000 (demo_tile 0 361) (demo_piano True))) ''g4'' = Some 2000
   \<and> score (trigger_note_by_name ''g4'' False 2300
              (snd (update_position 2000 (demo_tile 0 361) (demo_piano True)))) = 10"
    by (simp add: demo_tile_fields k m user_trigger_score)
  from C6_tile_update [of "demo_tile 0 361" 2000 "demo_piano False" 2300 "[]"]
  have b: "snd (update_position 2000 (demo_tile 0 361) (demo_piano False))
        = trigger_note_by_name ''g4'' True 2000 (demo_piano False)"
    by (simp add: demo_tile_fields k m)
  from C6_tile_update [of "demo_tile 0 353" 2000 "demo_piano True" 2300 "[1000, 1033]"] q
  have c: "\<not> is_finished (fst (update_position 2000 (demo_tile 0 353) (demo_piano True)))
   \<and> snd (update_position 2000 (demo_tile 0 353) (demo_piano True)) = demo_piano True"
    by (simp add: demo_tile_fields k m)
  from C6_tile_update [of "demo_tile 0 353" 1066 "demo_piano True" 2300 "[1000, 1033]"] q
  have d: "\<not> is_finished (fst (fall [1000, 1033] (demo_tile 0 353) (demo_piano True)))
   \<and> is_finished (fst (fall ([1000, 1033] @ [1066]) (demo_tile 0 353) (demo_piano True)))"
    by (simp add: demo_tile_fields k m del: fall.simps)
  from a b c d show ?thesis by blast
qed

text \<open>
  C8. When \<open>spawnTile\<close> finds the note's key (with a valid rectangle), it appends one
  tile whose horizontal offset is 20 times the number of unfinished tiles of the same
  note in the list. The offset enters the new tile's horizontal position only: the tile
  is the offset-0 tile moved right by the offset, and after any number of frames, with
  whatever piano state and clock, the two are finished or not alike and at the same
  height.
\<close>

theorem C8_offset_only_horizontal:
  assumes "first_button (keys_info p) nm = Some kr" and "QRect_bool kr"
  shows "spawnTile scale nm speed p tiles =
           tiles @ [FallingTile_init scale nm kr speed
                      (20 * int (length [t \<leftarrow> tiles. note_name t = nm \<and> \<not> is_finished t]))]
       \<and> FallingTile_init scale nm kr speed off =
           (FallingTile_init scale nm kr speed 0)
              \<lparr>tile_x := tile_x (FallingTile_init scale nm kr speed 0) + off\<rparr>
       \<and> (length nows = length nows' \<longrightarrow>
            is_finished (fst (fall nows (FallingTile_init scale nm kr speed off) q))
              = is_finished (fst (fall nows' (FallingTile_init scale nm kr speed 0) q'))
          \<and> tile_y (fst (fall nows (FallingTile_init scale nm kr speed off) q))
              = tile_y (fst (fall nows' (FallingTile_init scale nm kr speed 0) q')))"
proof -
  have "spawnTile scale nm speed p tiles =
           tiles @ [FallingTile_init scale nm kr speed
                      (20 * int (length [t \<leftarrow> tiles. note_name t = nm \<and> \<not> is_finished t]))]"
    using assms by (simp add: spawnTile_def Let_def mult.commute)
  moreover note FallingTile_init_offset [of scale nm kr speed off]
  moreover have "length nows = length nows' \<longrightarrow>
            is_finished (fst (fall nows (FallingTile_init scale nm kr speed off) q))
              = is_finished (fst (fall nows' (FallingTile_init scale nm kr speed 0) q'))
          \<and> tile_y (fst (fall nows (FallingTile_init scale nm kr speed off) q))
              = tile_y (fst (fall nows' (FallingTile_init scale nm kr speed 0) q'))"
  proof
    assume len: "length nows = length nows'"
    show "is_finished (fst (fall nows (FallingTile_init scale nm kr speed off) q))
              = is_finished (fst (fall nows' (FallingTile_init scale nm kr speed 0) q'))
          \<and> tile_y (fst (fall nows (FallingTile_init scale nm kr speed off) q))
              = tile_y (fst (fall nows' (FallingTile_init scale nm kr speed 0) q'))"
      using fall_offset [OF len, where t = "FallingTile_init scale nm kr speed 0"
          and a = "tile_x (FallingTile_init scale nm kr speed 0) + off" and q = q and q' = q']
      by (simp add: FallingTile_init_offset [symmetric])
  qed
  ultimately show ?thesis by blast
qed

theorem C8_offset_only_horizontal_witness:
  "spawnTile demo_scale ''g4'' 4 (demo_piano True) [demo_tile 0 100, demo_tile 20 200]
     = [demo_tile 0 100, demo_tile 20 200, FallingTile_init demo_scale ''g4'' demo_key 4 40]
   \<and> tile_x (FallingTile_init demo_scale ''g4'' demo_key 4 40) = 47
   \<and> is_finished (fst (fall [10, 20] (FallingTile_init demo_scale ''g4'' demo_key 4 40) (demo_piano True)))
       = is_finished (fst (fall [30, 40] (FallingTile_init demo_scale ''g4'' demo_key 4 0) (demo_piano False)))"
proof -
  have a: "first_button (keys_info (demo_piano True)) ''g4'' = Some demo_key"
    by (simp add: demo_piano_def)
  have b: "QRect_bool demo_key" by (simp add: QRect_bool_def demo_key_def)
  have c: "length [t \<leftarrow> [demo_tile 0 100, demo_tile 20 200]. note_name t = ''g4'' \<and> \<not> is_finished t] = 2"
    by (simp add: demo_tile_fields)
  have d: "tile_x (FallingTile_init demo_scale ''g4'' demo_key 4 0) = 7"
    by (simp add: FallingTile_init_def demo_scale_def demo_key_def Let_def)
  have e: "length [10, 20 :: int] = length [30, 40 :: int]" by simp
  from C8_offset_only_horizontal [OF a b, where scale = demo_scale and speed = 4
      and tiles = "[demo_tile 0 100, demo_tile 20 200]" and off = 40
      and nows = "[10, 20]" and nows' = "[30, 40]" and q = "demo_piano True" and q' = "demo_piano False"]
  have f: "spawnTile demo_scale ''g4'' 4 (demo_piano True) [demo_tile 0 100, demo_tile 20 200]
       = [demo_tile 0 100, demo_tile 20 200] @ [FallingTile_init demo_scale ''g4'' demo_key 4 (20 * int 2)]
     \<and> FallingTile_init demo_scale ''g4'' demo_key 4 40 =
           (FallingTile_init demo_scale ''g4'' demo_key 4 0)
              \<lparr>tile_x := tile_x (FallingTile_init demo_scale ''g4'' demo_key 4 0) + 40\<rparr>
     \<and> (length [10, 20 :: int] = length [30, 40 :: int] \<longrightarrow>
            is_finished (fst (fall [10, 20] (FallingTile_init demo_scale ''g4'' demo_key 4 40) (demo_piano True)))
              = is_finished (fst (fall [30, 40] (FallingTile_init demo_scale ''g4'' demo_key 4 0) (demo_piano False)))
          \<and> tile_y (fst (fall [10, 20] (FallingTile_init demo_scale ''g4'' demo_key 4 40) (demo_piano True)))
              = tile_y (fst (fall [30, 40] (FallingTile_init demo_scale ''g4'' demo_key 4 0) (demo_piano False))))"
    unfolding c .
  from f have "spawnTile demo_scale ''g4'' 4 (demo_piano True) [demo_tile 0 100, demo_tile 20 200]
     = [demo_tile 0 100, demo_tile 20 200, FallingTile_init demo_scale ''g4'' demo_key 4 40]"
    by simp
  moreover from f have "FallingTile_init demo_scale ''g4'' demo_key 4 40 =
           (FallingTile_init demo_scale ''g4'' demo_key 4 0)
              \<lparr>tile_x := tile_x (FallingTile_init demo_scale ''g4'' demo_key 4 0) + 40\<rparr>"
    by blast
  then have "tile_x (FallingTile_init demo_scale ''g4'' demo_key 4 40) = 47"
    using d by simp
  moreover from f e
  have "is_finished (fst (fall [10, 20] (FallingTile_init demo_scale ''g4'' demo_key 4 40) (demo_piano True)))
       = is_finished (fst (fall [30, 40] (FallingTile_init demo_scale ''g4'' demo_key 4 0) (demo_piano False)))"
    by blast
  ultimately show ?thesis by blast
qed

text \<open>
  C9. \<open>spawnTile\<close> for a note name that no key of the layout has returns the tile list
  as it was: no tile is created, and the function has no failing path there.
\<close>

theorem C9_unknown_note_no_tile:
  assumes "nm \<notin> snd ` set (keys_info p)"
  shows "spawnTile scale nm speed p tiles = tiles"
  using assms by (simp add: spawnTile_def Let_def first_button_None [symmetric])

theorem C9_unknown_note_no_tile_witness:
  "spawnTile demo_scale ''h9'' 4 (demo_piano True) [demo_tile 0 100] = [demo_tile 0 100]"
  using C9_unknown_note_no_tile [of "''h9''" "demo_piano True" demo_scale 4 "[demo_tile 0 100]"]
  by (simp add: demo_piano_def)

end
